theory Spec2Isabelle
  imports
    Main
    "HOL-Library.Multiset"
    "HOL-Library.Char_ord"
    "HOL-Library.List_Lexorder"
begin

section \<open>Data model\<close>

text \<open>
  An \<open>xml.etree.ElementTree.Element\<close>: tag, attribute dictionary (in insertion order),
  text, tail and the list of children. Python compares elements by object identity
  (\<open>Element\<close> defines no \<open>__eq__\<close>), so every element carries the identity \<open>oid\<close> of the
  object it is; a parser creates a fresh object for every element it reads.

  Strings are \<open>string\<close>. Python orders \<open>str\<close> by code point; the order used here is the
  lexicographic order on lists of characters ordered by their code, which for UTF-8
  encoded text is the same order.
\<close>

datatype element =
  Element (oid: nat) (tag: string) (attrib: "(string \<times> string) list")
    (elem_text: "string option") (elem_tail: "string option") (children: "element list")

text \<open>The exceptions the two functions can meet, by the handler that catches them.\<close>

datatype exn =
    FileNotFoundError string
  | ParseError string
  | ValueError
  | OSError string

text \<open>
  The files on disk: a path that is absent does not exist; \<open>Locked\<close> is a file that
  exists and cannot be opened (any \<open>OSError\<close> other than \<open>FileNotFoundError\<close>).
\<close>

datatype entry = File string | Locked

type_synonym filesystem = "string \<Rightarrow> entry option"

text \<open>The lines the two functions print.\<close>

datatype message =
    SortSuccess string string
  | InputNotFound string
  | ParseFailed string string
  | SortUnexpected exn
  | VerifyStart
  | NoBookIds
  | DuplicateWarning string
  | DuplicateHeader
  | DuplicateItem string nat
  | FoundUnique nat string
  | VerifySuccess nat string
  | VerifyFailed nat
  | MissingHeader
  | MissingItem string
  | VerifyFileNotFound string
  | VerifyUnexpected exn

section \<open>Files\<close>

definition open_read :: "filesystem \<Rightarrow> string \<Rightarrow> exn + string" where
  "open_read fs p =
     (case fs p of
        None \<Rightarrow> Inl (FileNotFoundError p)
      | Some Locked \<Rightarrow> Inl (OSError p)
      | Some (File c) \<Rightarrow> Inr c)"

definition open_write :: "filesystem \<Rightarrow> string \<Rightarrow> string \<Rightarrow> exn + filesystem" where
  "open_write fs p c =
     (case fs p of
        Some Locked \<Rightarrow> Inl (OSError p)
      | _ \<Rightarrow> Inr (fs(p \<mapsto> File c)))"

section \<open>The sorter\<close>

text \<open>\<open>root.findall('book')\<close>: the direct children with that tag, in document order.\<close>

definition findall :: "element \<Rightarrow> string \<Rightarrow> element list" where
  "findall root t = filter (\<lambda>e. tag e = t) (children root)"

text \<open>\<open>book.get('path', '')\<close>.\<close>

definition attrib_get :: "element \<Rightarrow> string \<Rightarrow> string \<Rightarrow> string" where
  "attrib_get e k d = (case map_of (attrib e) k of None \<Rightarrow> d | Some v \<Rightarrow> v)"

definition path_key :: "element \<Rightarrow> string" where
  "path_key book = attrib_get book ''path'' ''''"

text \<open>
  \<open>sorted(books, key=...)\<close>: Python's \<open>sorted\<close> is a stable ascending sort, and so is
  \<open>sort_key\<close>; a stable sort has one result only.
\<close>

definition sorted_py :: "('a \<Rightarrow> 'k::linorder) \<Rightarrow> 'a list \<Rightarrow> 'a list" where
  "sorted_py key xs = sort_key key xs"

text \<open>
  \<open>root.remove(book)\<close> deletes the first child that is the object \<open>book\<close> and raises
  \<open>ValueError\<close> when there is none.
\<close>

fun remove_child :: "element list \<Rightarrow> element \<Rightarrow> exn + element list" where
  "remove_child [] x = Inl ValueError"
| "remove_child (c # cs) x =
     (if oid c = oid x then Inr cs
      else (case remove_child cs x of Inl e \<Rightarrow> Inl e | Inr cs' \<Rightarrow> Inr (c # cs')))"

text \<open>\<open>for book in books: root.remove(book)\<close>\<close>

fun remove_loop :: "element list \<Rightarrow> element list \<Rightarrow> exn + element list" where
  "remove_loop cs [] = Inr cs"
| "remove_loop cs (b # bs) =
     (case remove_child cs b of Inl e \<Rightarrow> Inl e | Inr cs' \<Rightarrow> remove_loop cs' bs)"

text \<open>\<open>for book in sorted_books: root.append(book)\<close>\<close>

fun append_loop :: "element list \<Rightarrow> element list \<Rightarrow> element list" where
  "append_loop cs [] = cs"
| "append_loop cs (b # bs) = append_loop (cs @ [b]) bs"

text \<open>
  The part of \<open>sort_library_by_path\<close> that works on the parsed tree: from
  \<open>root.findall\<close> to the last \<open>root.append\<close>. The root is mutated in place, so the
  result is the same object with a new list of children.
\<close>

definition reorder_books :: "element \<Rightarrow> exn + element" where
  "reorder_books root =
     (let books = findall root ''book'';
          sorted_books = sorted_py path_key books
      in case remove_loop (children root) books of
           Inl e \<Rightarrow> Inl e
         | Inr cs \<Rightarrow>
             Inr (Element (oid root) (tag root) (attrib root) (elem_text root) (elem_tail root)
                    (append_loop cs sorted_books)))"

text \<open>
  The body of the \<open>try\<close>. \<open>ET.parse\<close> and \<open>ElementTree.write\<close> belong to the standard
  library: the parser (\<open>Inl\<close> its message when the text is not well-formed) and the
  serializer are parameters.
\<close>

definition sort_try ::
  "(string \<Rightarrow> string + element) \<Rightarrow> (element \<Rightarrow> string) \<Rightarrow> filesystem \<Rightarrow> string \<Rightarrow> string
    \<Rightarrow> exn + filesystem" where
  "sort_try parser serializer fs input_filepath output_filepath =
     (case open_read fs input_filepath of
        Inl e \<Rightarrow> Inl e
      | Inr content \<Rightarrow>
          (case parser content of
             Inl m \<Rightarrow> Inl (ParseError m)
           | Inr root \<Rightarrow>
               (case reorder_books root of
                  Inl e \<Rightarrow> Inl e
                | Inr root' \<Rightarrow> open_write fs output_filepath (serializer root'))))"

text \<open>The result: the value returned, the files afterwards, the lines printed.\<close>

definition sort_library_by_path ::
  "(string \<Rightarrow> string + element) \<Rightarrow> (element \<Rightarrow> string) \<Rightarrow> filesystem \<Rightarrow> string \<Rightarrow> string
    \<Rightarrow> bool \<times> filesystem \<times> message list" where
  "sort_library_by_path parser serializer fs input_filepath output_filepath =
     (case sort_try parser serializer fs input_filepath output_filepath of
        Inr fs' \<Rightarrow> (True, fs', [SortSuccess input_filepath output_filepath])
      | Inl (FileNotFoundError f) \<Rightarrow> (False, fs, [InputNotFound input_filepath])
      | Inl (ParseError m) \<Rightarrow> (False, fs, [ParseFailed input_filepath m])
      | Inl e \<Rightarrow> (False, fs, [SortUnexpected e]))"

text \<open>The books of a catalog, and the children that are not books.\<close>

definition books_of :: "element \<Rightarrow> element list" where
  "books_of root = findall root ''book''"

definition others_of :: "element \<Rightarrow> element list" where
  "others_of root = filter (\<lambda>e. tag e \<noteq> ''book'') (children root)"

text \<open>What a parser guarantees: the children of the root are different objects.\<close>

definition fresh_children :: "element \<Rightarrow> bool" where
  "fresh_children root = distinct (map oid (children root))"

text \<open>
  The \<open>path\<close> values of the books that have one, in document order (\<open>the\<close> is applied
  to books with a \<open>path\<close> only).
\<close>

definition has_path :: "element \<Rightarrow> bool" where
  "has_path book = (map_of (attrib book) ''path'' \<noteq> None)"

definition paths_of :: "element \<Rightarrow> string list" where
  "paths_of root = map (\<lambda>book. the (map_of (attrib book) ''path'')) (filter has_path (books_of root))"

section \<open>The verifier\<close>

definition dquote :: char where
  "dquote = CHR 0x22"

text \<open>The literal part of the pattern \<^verbatim>\<open>book id="([^"]+)"\<close>.\<close>

definition book_id_literal :: string where
  "book_id_literal = ''book id='' @ [dquote]"

text \<open>Matching a literal at the head of a text: the text after it.\<close>

fun strip_literal :: "string \<Rightarrow> string \<Rightarrow> string option" where
  "strip_literal [] s = Some s"
| "strip_literal (p # ps) [] = None"
| "strip_literal (p # ps) (c # cs) = (if p = c then strip_literal ps cs else None)"

text \<open>
  The pattern tried at the head of a text: the group and the text after the match. After
  the literal, the greedy \<^verbatim>\<open>[^"]+\<close> takes the longest run of characters other than the
  quote (line breaks too); the match needs a quote right after it, and giving characters
  back cannot help, since every character of that run is not a quote.
\<close>

definition match_here :: "string \<Rightarrow> (string \<times> string) option" where
  "match_here s =
     (case strip_literal book_id_literal s of
        None \<Rightarrow> None
      | Some r \<Rightarrow>
          (let v = takeWhile (\<lambda>c. c \<noteq> dquote) r
           in case dropWhile (\<lambda>c. c \<noteq> dquote) r of
                [] \<Rightarrow> None
              | q # rest \<Rightarrow> if v = [] then None else Some (v, rest)))"

text \<open>
  \<open>re.findall\<close> with this pattern: the groups of the leftmost non-overlapping matches.
  The search goes on after the end of a match, and one character further where the
  pattern does not match.
\<close>

function re_findall :: "string \<Rightarrow> string list" where
  "re_findall s =
     (case match_here s of
        Some (v, rest) \<Rightarrow> v # re_findall rest
      | None \<Rightarrow> (case s of [] \<Rightarrow> [] | c # t \<Rightarrow> re_findall t))"
  by pat_completeness auto
termination
proof (relation "measure length")
  show "wf (measure length)" by simp
next
  fix s :: string and x2 v rest
  assume m: "match_here s = Some x2" and x: "(v, rest) = x2"
  have strip: "strip_literal p t = Some r \<Longrightarrow> length r \<le> length t" for p t r
    by (induction p t rule: strip_literal.induct) (auto split: if_splits)
  from m x obtain r q where r: "strip_literal book_id_literal s = Some r"
    and d: "dropWhile (\<lambda>c. c \<noteq> dquote) r = q # rest"
    by (auto simp: match_here_def Let_def split: option.splits list.splits if_splits)
  have "length (dropWhile (\<lambda>c. c \<noteq> dquote) r) \<le> length r"
    by (rule length_dropWhile_le)
  with d have "length rest < length r" by simp
  with strip [OF r] show "(rest, s) \<in> measure length" by simp
next
  fix s :: string and c t
  assume "s = c # t"
  then show "(t, s) \<in> measure length" by simp
qed

declare re_findall.simps [simp del]

text \<open>
  \<open>set(all_input_ids)\<close>. The order in which Python iterates over a set is not fixed; the
  model lists each id once, and no property below depends on the order.
\<close>

definition py_set :: "string list \<Rightarrow> string list" where
  "py_set xs = remdups xs"

text \<open>
  \<open>Counter(all_input_ids)\<close>: a dictionary from id to number of occurrences, its keys in
  the order of their first occurrence.
\<close>

fun counter_add :: "('a \<times> nat) list \<Rightarrow> 'a \<Rightarrow> ('a \<times> nat) list" where
  "counter_add [] x = [(x, 1)]"
| "counter_add ((k, n) # m) x =
     (if k = x then (k, Suc n) # m else (k, n) # counter_add m x)"

definition Counter :: "'a list \<Rightarrow> ('a \<times> nat) list" where
  "Counter xs = foldl counter_add [] xs"

text \<open>\<open>{item: count for item, count in counts.items() if count > 1}\<close>\<close>

definition duplicates :: "string list \<Rightarrow> (string \<times> nat) list" where
  "duplicates all_input_ids = filter (\<lambda>(item, count). count > 1) (Counter all_input_ids)"

text \<open>\<^verbatim>\<open>f'id="{book_id}"'\<close>\<close>

definition search_pattern :: "string \<Rightarrow> string" where
  "search_pattern book_id = ''id='' @ [dquote] @ book_id @ [dquote]"

text \<open>\<open>pat in s\<close> on strings.\<close>

fun contains :: "string \<Rightarrow> string \<Rightarrow> bool" where
  "contains pat [] = (pat = [])"
| "contains pat (c # cs) = (strip_literal pat (c # cs) \<noteq> None \<or> contains pat cs)"

definition missing_ids :: "string list \<Rightarrow> string \<Rightarrow> string list" where
  "missing_ids unique_input_ids output_content =
     filter (\<lambda>book_id. \<not> contains (search_pattern book_id) output_content) unique_input_ids"

text \<open>
  The duplicate check: nothing is printed unless there are more ids than unique ids.
\<close>

definition duplicate_report :: "string \<Rightarrow> string list \<Rightarrow> string list \<Rightarrow> message list" where
  "duplicate_report input_filepath all_input_ids unique_input_ids =
     (if length all_input_ids > length unique_input_ids
      then [DuplicateWarning input_filepath, DuplicateHeader] @
           map (\<lambda>(item, count). DuplicateItem item count) (duplicates all_input_ids)
      else [])"

text \<open>The report at the end: success, or failure and the ids that are missing.\<close>

definition result_report :: "string \<Rightarrow> string list \<Rightarrow> string list \<Rightarrow> message list" where
  "result_report output_filepath unique_input_ids missing =
     (if missing = []
      then [VerifySuccess (length unique_input_ids) output_filepath]
      else [VerifyFailed (length missing), MissingHeader] @ map MissingItem missing)"

text \<open>
  The body of the \<open>try\<close>, after the first line printed: how it ends (normally, or with
  the exception raised) and the lines printed until then.
\<close>

definition verify_try :: "filesystem \<Rightarrow> string \<Rightarrow> string \<Rightarrow> (exn + unit) \<times> message list" where
  "verify_try fs input_filepath output_filepath =
     (case open_read fs input_filepath of
        Inl e \<Rightarrow> (Inl e, [])
      | Inr input_content \<Rightarrow>
          (let all_input_ids = re_findall input_content
           in if all_input_ids = [] then (Inr (), [NoBookIds])
              else
                (let unique_input_ids = py_set all_input_ids;
                     out1 = duplicate_report input_filepath all_input_ids unique_input_ids @
                            [FoundUnique (length unique_input_ids) input_filepath]
                 in case open_read fs output_filepath of
                      Inl e \<Rightarrow> (Inl e, out1)
                    | Inr output_content \<Rightarrow>
                        (let missing = missing_ids unique_input_ids output_content
                         in (Inr (), out1 @
                               result_report output_filepath unique_input_ids missing)))))"

text \<open>
  The whole function with its two handlers: how the call ends for the caller, and all the
  lines printed.
\<close>

definition verify_book_ids :: "filesystem \<Rightarrow> string \<Rightarrow> string \<Rightarrow> (exn + unit) \<times> message list" where
  "verify_book_ids fs input_filepath output_filepath =
     (case verify_try fs input_filepath output_filepath of
        (Inr u, out) \<Rightarrow> (Inr (), VerifyStart # out)
      | (Inl (FileNotFoundError f), out) \<Rightarrow> (Inr (), VerifyStart # out @ [VerifyFileNotFound f])
      | (Inl e, out) \<Rightarrow> (Inr (), VerifyStart # out @ [VerifyUnexpected e]))"

text \<open>Reading the lines printed by the verifier.\<close>

fun is_success :: "message \<Rightarrow> bool" where
  "is_success (VerifySuccess n p) = True"
| "is_success m = False"

fun is_failure :: "message \<Rightarrow> bool" where
  "is_failure (VerifyFailed n) = True"
| "is_failure m = False"

fun is_duplicate_warning :: "message \<Rightarrow> bool" where
  "is_duplicate_warning (DuplicateWarning p) = True"
| "is_duplicate_warning m = False"

fun listed_missing :: "message list \<Rightarrow> string list" where
  "listed_missing [] = []"
| "listed_missing (MissingItem v # ms) = v # listed_missing ms"
| "listed_missing (m # ms) = listed_missing ms"

fun listed_duplicates :: "message list \<Rightarrow> (string \<times> nat) list" where
  "listed_duplicates [] = []"
| "listed_duplicates (DuplicateItem v n # ms) = (v, n) # listed_duplicates ms"
| "listed_duplicates (m # ms) = listed_duplicates ms"

section \<open>Example catalogs\<close>

text \<open>
  Concrete inputs on which the properties below are instantiated: a catalog of three books
  and one other child, as a tree and as text; a toy parser and serializer for it; and
  directories holding it together with an output that lost a book, a catalog with one id
  twice, a catalog whose books the pattern of the verifier does not match, a text without
  books, and a file that cannot be opened.
\<close>

definition attr :: "string \<Rightarrow> string \<Rightarrow> string" where
  "attr k v = k @ ''='' @ [dquote] @ v @ [dquote]"

definition example_catalog :: element where
  "example_catalog =
     Element 0 ''library'' [] None None
       [Element 1 ''book'' [(''id'', ''b''), (''path'', ''z/2.txt'')] None None [],
        Element 2 ''meta'' [] None None [],
        Element 3 ''book'' [(''id'', ''c'')] None None [],
        Element 4 ''book'' [(''id'', ''a''), (''path'', ''y/1.txt'')] None None []]"

fun example_serializer :: "element \<Rightarrow> string" where
  "example_serializer (Element i t a x l cs) =
     ''<'' @ t @ concat (map (\<lambda>(k, v). '' '' @ attr k v) a) @ ''>'' @
     concat (map example_serializer cs) @ ''</'' @ t @ ''>''"

definition example_input :: string where
  "example_input =
     ''<library><book '' @ attr ''id'' ''b'' @ '' '' @ attr ''path'' ''z/2.txt'' @ ''/><meta/>'' @
     ''<book '' @ attr ''id'' ''c'' @ ''/><book '' @ attr ''id'' ''a'' @ '' '' @
     attr ''path'' ''y/1.txt'' @ ''/></library>''"

definition example_parser :: "string \<Rightarrow> string + element" where
  "example_parser content =
     (if content = example_input then Inr example_catalog else Inl ''syntax error'')"

definition example_fs :: filesystem where
  "example_fs = [''library.xml'' \<mapsto> File example_input]"

definition broken_fs :: filesystem where
  "broken_fs = [''library.xml'' \<mapsto> File ''<library>'']"

definition example_sorted :: element where
  "example_sorted =
     Element 0 ''library'' [] None None
       [Element 2 ''meta'' [] None None [],
        Element 3 ''book'' [(''id'', ''c'')] None None [],
        Element 4 ''book'' [(''id'', ''a''), (''path'', ''y/1.txt'')] None None [],
        Element 1 ''book'' [(''id'', ''b''), (''path'', ''z/2.txt'')] None None []]"



definition duplicate_input :: string where
  "duplicate_input =
     ''<library><book '' @ attr ''id'' ''x'' @ ''/><book '' @ attr ''id'' ''x'' @ ''/></library>''"

definition duplicate_fs :: filesystem where
  "duplicate_fs =
     [''library.xml'' \<mapsto> File duplicate_input, ''library_sorted.xml'' \<mapsto> File duplicate_input]"





section \<open>Properties of the sorter\<close>

text \<open>The two loops: removing the books of a parsed tree leaves the other children.\<close>

lemma append_loop_eq: "append_loop cs bs = cs @ bs"
  by (induction bs arbitrary: cs) auto

lemma remove_loop_skip:
  "oid c \<notin> oid ` set bs \<Longrightarrow>
   remove_loop (c # cs) bs = (case remove_loop cs bs of Inl e \<Rightarrow> Inl e | Inr r \<Rightarrow> Inr (c # r))"
proof (induction bs arbitrary: cs)
  case Nil
  then show ?case by simp
next
  case (Cons b bs)
  then show ?case by (cases "remove_child cs b") auto
qed

lemma remove_loop_filter:
  "distinct (map oid cs) \<Longrightarrow> remove_loop cs (filter P cs) = Inr (filter (\<lambda>e. \<not> P e) cs)"
proof (induction cs)
  case Nil
  then show ?case by simp
next
  case (Cons c cs)
  show ?case
  proof (cases "P c")
    case True
    with Cons show ?thesis by simp
  next
    case False
    from Cons.prems have "oid c \<notin> oid ` set (filter P cs)" by auto
    with Cons False show ?thesis by (simp add: remove_loop_skip)
  qed
qed

lemma reorder_books_eq:
  assumes "fresh_children root"
  shows "reorder_books root =
           Inr (Element (oid root) (tag root) (attrib root) (elem_text root) (elem_tail root)
                  (others_of root @ sort_key path_key (books_of root)))"
  using assms
  by (simp add: reorder_books_def fresh_children_def findall_def books_of_def others_of_def
      sorted_py_def append_loop_eq remove_loop_filter)

lemma books_of_reordered:
  "books_of (Element i t a x l (others_of root @ sort_key path_key (books_of root)))
     = sort_key path_key (books_of root)"
  by (auto simp: books_of_def findall_def others_of_def filter_empty_conv intro!: filter_True)

lemma others_of_reordered:
  "others_of (Element i t a x l (others_of root @ sort_key path_key (books_of root)))
     = others_of root"
  by (auto simp: books_of_def findall_def others_of_def filter_empty_conv)

lemma mset_children_split: "mset (children root) = mset (others_of root) + mset (books_of root)"
  by (simp add: others_of_def books_of_def findall_def union_commute)

text \<open>The example catalog, sorted.\<close>

lemma fresh_example: "fresh_children example_catalog"
  by (simp add: fresh_children_def example_catalog_def)

lemma reorder_example: "reorder_books example_catalog = Inr example_sorted"
  by (simp add: reorder_books_def example_catalog_def example_sorted_def findall_def
      sorted_py_def path_key_def attrib_get_def)

lemma sort_example:
  "sort_library_by_path example_parser example_serializer example_fs
     ''library.xml'' ''library_sorted.xml''
   = (True, example_fs(''library_sorted.xml'' \<mapsto> File (example_serializer example_sorted)),
      [SortSuccess ''library.xml'' ''library_sorted.xml''])"
  by (simp add: sort_library_by_path_def sort_try_def open_read_def open_write_def
      example_fs_def example_parser_def reorder_example)

lemma sort_try_cases:
  "sort_try parser serializer fs inp outp = Inr fs' \<longleftrightarrow>
     (\<exists>c root root'. fs inp = Some (File c) \<and> parser c = Inr root \<and> reorder_books root = Inr root'
        \<and> fs outp \<noteq> Some Locked \<and> fs' = fs(outp \<mapsto> File (serializer root')))"
  by (auto simp: sort_try_def open_read_def open_write_def
      split: option.splits entry.splits sum.splits)

text \<open>
  Claim C1. On a parsed catalog the sorter succeeds, and the tree it writes has the same
  books as a multiset (each book whole: identity, attributes, text, tail, children), the
  same children that are not books, in the same order, the same children over all as a
  multiset, and the same root tag, attributes, text and tail: no book is added, dropped
  or changed, only the order of the children changes.
\<close>

theorem sort_preserves_content:
  assumes "fresh_children root"
  shows "\<exists>root'. reorder_books root = Inr root'
           \<and> mset (books_of root') = mset (books_of root)
           \<and> others_of root' = others_of root
           \<and> mset (children root') = mset (children root)
           \<and> oid root' = oid root \<and> tag root' = tag root \<and> attrib root' = attrib root
           \<and> elem_text root' = elem_text root \<and> elem_tail root' = elem_tail root"
proof -
  let ?r = "Element (oid root) (tag root) (attrib root) (elem_text root) (elem_tail root)
              (others_of root @ sort_key path_key (books_of root))"
  have "reorder_books root = Inr ?r" by (rule reorder_books_eq [OF assms])
  moreover have "mset (books_of ?r) = mset (books_of root)"
    by (simp only: books_of_reordered mset_sort)
  moreover have "others_of ?r = others_of root" by (rule others_of_reordered)
  moreover have "mset (children ?r) = mset (children root)"
    by (simp add: mset_children_split)
  ultimately show ?thesis by simp
qed

theorem sort_preserves_content_witness:
  "fresh_children example_catalog \<and>
   (\<exists>root'. reorder_books example_catalog = Inr root'
      \<and> mset (books_of root') = mset (books_of example_catalog)
      \<and> others_of root' = others_of example_catalog
      \<and> mset (children root') = mset (children example_catalog)
      \<and> oid root' = oid example_catalog \<and> tag root' = tag example_catalog
      \<and> attrib root' = attrib example_catalog
      \<and> elem_text root' = elem_text example_catalog
      \<and> elem_tail root' = elem_tail example_catalog)"
proof -
  from fresh_example sort_preserves_content [OF fresh_example] show ?thesis by (rule conjI)
qed

text \<open>
  Claim C2. In the tree the sorter writes, the \<open>path\<close> values of the books that have a
  \<open>path\<close>, read in document order, are non-decreasing in the lexicographic order.
\<close>

theorem sort_paths_nondecreasing:
  assumes "fresh_children root"
  shows "\<exists>root'. reorder_books root = Inr root' \<and> sorted (paths_of root')"
proof -
  let ?r = "Element (oid root) (tag root) (attrib root) (elem_text root) (elem_tail root)
              (others_of root @ sort_key path_key (books_of root))"
  let ?sb = "sort_key path_key (books_of root)"
  have r: "reorder_books root = Inr ?r" by (rule reorder_books_eq [OF assms])
  have "sorted (map path_key ?sb)" by (rule sorted_sort_key)
  then have "sorted (map path_key (filter has_path ?sb))" by (rule sorted_filter)
  moreover have "map path_key (filter has_path ?sb) = paths_of ?r"
    unfolding paths_of_def books_of_reordered
    by (rule map_cong) (auto simp: has_path_def path_key_def attrib_get_def)
  ultimately have "sorted (paths_of ?r)" by simp
  with r show ?thesis by blast
qed

theorem sort_paths_nondecreasing_witness:
  "fresh_children example_catalog \<and>
   (\<exists>root'. reorder_books example_catalog = Inr root' \<and> sorted (paths_of root'))"
proof -
  from fresh_example sort_paths_nondecreasing [OF fresh_example] show ?thesis by (rule conjI)
qed



text \<open>
  Claim C4. A book without a \<open>path\<close> attribute is sorted with the empty string as its key,
  so in the output it stands before every book whose \<open>path\<close> is a non-empty string.
\<close>

theorem sort_missing_path_first:
  assumes "fresh_children root"
  shows "\<exists>root'. reorder_books root = Inr root'
           \<and> (\<forall>b \<in> set (books_of root'). \<not> has_path b \<longrightarrow> path_key b = '''')
           \<and> (\<forall>i j. i < length (books_of root') \<and> j < length (books_of root')
                  \<and> \<not> has_path (books_of root' ! i)
                  \<and> has_path (books_of root' ! j) \<and> path_key (books_of root' ! j) \<noteq> ''''
                \<longrightarrow> i < j)"
proof -
  let ?r = "Element (oid root) (tag root) (attrib root) (elem_text root) (elem_tail root)
              (others_of root @ sort_key path_key (books_of root))"
  let ?sb = "sort_key path_key (books_of root)"
  have r: "reorder_books root = Inr ?r" by (rule reorder_books_eq [OF assms])
  have key: "\<not> has_path b \<Longrightarrow> path_key b = ''''" for b
    by (simp add: has_path_def path_key_def attrib_get_def)
  have s: "sorted (map path_key ?sb)" by (rule sorted_sort_key)
  have "i < j" if "i < length ?sb" "j < length ?sb" "\<not> has_path (?sb ! i)"
    "path_key (?sb ! j) \<noteq> ''''" for i j
  proof (rule ccontr)
    assume "\<not> i < j"
    then have "j \<le> i" by simp
    with s that(1) have "map path_key ?sb ! j \<le> map path_key ?sb ! i"
      by (simp add: sorted_iff_nth_mono del: nth_map)
    with that have "path_key (?sb ! j) \<le> path_key (?sb ! i)" by simp
    with key [OF that(3)] that(4) show False by simp
  qed
  with r key show ?thesis
    by (intro exI [of _ ?r]) (simp add: books_of_reordered)
qed

theorem sort_missing_path_first_witness:
  "fresh_children example_catalog \<and>
   \<not> has_path (books_of example_sorted ! 0) \<and>
   has_path (books_of example_sorted ! 1) \<and> path_key (books_of example_sorted ! 1) \<noteq> '''' \<and>
   (\<exists>root'. reorder_books example_catalog = Inr root'
      \<and> (\<forall>b \<in> set (books_of root'). \<not> has_path b \<longrightarrow> path_key b = '''')
      \<and> (\<forall>i j. i < length (books_of root') \<and> j < length (books_of root')
             \<and> \<not> has_path (books_of root' ! i)
             \<and> has_path (books_of root' ! j) \<and> path_key (books_of root' ! j) \<noteq> ''''
           \<longrightarrow> i < j))"
proof -
  have "\<not> has_path (books_of example_sorted ! 0)"
    and "has_path (books_of example_sorted ! 1)"
    and "path_key (books_of example_sorted ! 1) \<noteq> ''''"
    by (simp_all add: example_sorted_def books_of_def findall_def has_path_def path_key_def
        attrib_get_def)
  with fresh_example sort_missing_path_first [OF fresh_example] show ?thesis by blast
qed

text \<open>
  Claim C5. The children of the root in the output are the children that are not books, in
  their former order and unchanged, followed by the sorted books: every book follows every
  sibling that is not a book.
\<close>

theorem sort_books_after_others:
  assumes "fresh_children root"
  shows "\<exists>root'. reorder_books root = Inr root'
           \<and> children root' = others_of root @ sorted_py path_key (books_of root)
           \<and> (\<forall>e \<in> set (others_of root). tag e \<noteq> ''book'')
           \<and> (\<forall>b \<in> set (sorted_py path_key (books_of root)). tag b = ''book'')
           \<and> others_of root' = others_of root
           \<and> (\<forall>i j. i < length (children root') \<and> j < length (children root')
                  \<and> tag (children root' ! i) \<noteq> ''book'' \<and> tag (children root' ! j) = ''book''
                \<longrightarrow> i < j)"
proof -
  let ?sb = "sort_key path_key (books_of root)"
  let ?cs = "others_of root @ ?sb"
  let ?r = "Element (oid root) (tag root) (attrib root) (elem_text root) (elem_tail root) ?cs"
  have r: "reorder_books root = Inr ?r" by (rule reorder_books_eq [OF assms])
  have o: "\<forall>e \<in> set (others_of root). tag e \<noteq> ''book''"
    by (simp add: others_of_def)
  have b: "\<forall>b \<in> set ?sb. tag b = ''book''"
    by (simp add: books_of_def findall_def)
  have "i < j" if "i < length ?cs" "j < length ?cs" "tag (?cs ! i) \<noteq> ''book''"
    "tag (?cs ! j) = ''book''" for i j
  proof -
    have "i < length (others_of root)"
    proof (rule ccontr)
      assume n: "\<not> i < length (others_of root)"
      with that(1) have "?cs ! i = ?sb ! (i - length (others_of root))"
        and "i - length (others_of root) < length ?sb"
        by (simp_all add: nth_append)
      then have "?cs ! i \<in> set ?sb" by (metis nth_mem)
      with b that(3) show False by blast
    qed
    moreover have "\<not> j < length (others_of root)"
    proof
      assume "j < length (others_of root)"
      then have "?cs ! j \<in> set (others_of root)" by (simp add: nth_append)
      with o that(4) show False by blast
    qed
    ultimately show ?thesis by simp
  qed
  with r o b show ?thesis
    by (intro exI [of _ ?r]) (simp add: others_of_reordered sorted_py_def)
qed

theorem sort_books_after_others_witness:
  "fresh_children example_catalog \<and>
   tag (children example_sorted ! 0) \<noteq> ''book'' \<and> tag (children example_sorted ! 1) = ''book'' \<and>
   (\<exists>root'. reorder_books example_catalog = Inr root'
      \<and> children root' = others_of example_catalog @ sorted_py path_key (books_of example_catalog)
      \<and> (\<forall>e \<in> set (others_of example_catalog). tag e \<noteq> ''book'')
      \<and> (\<forall>b \<in> set (sorted_py path_key (books_of example_catalog)). tag b = ''book'')
      \<and> others_of root' = others_of example_catalog
      \<and> (\<forall>i j. i < length (children root') \<and> j < length (children root')
             \<and> tag (children root' ! i) \<noteq> ''book'' \<and> tag (children root' ! j) = ''book''
           \<longrightarrow> i < j))"
proof -
  have "tag (children example_sorted ! 0) \<noteq> ''book''"
    and "tag (children example_sorted ! 1) = ''book''"
    by (simp_all add: example_sorted_def)
  with fresh_example sort_books_after_others [OF fresh_example] show ?thesis by blast
qed

text \<open>
  Claim C6. When the input file does not exist the sorter reports that, when its text is not
  well-formed it reports the parse error; in both cases it returns \<open>False\<close> and the files
  are as before. It returns \<open>True\<close> only when the input was read, parsed and reordered
  and the output was written.
\<close>

theorem sort_failure_writes_nothing:
  "(fs inp = None \<longrightarrow>
      sort_library_by_path parser serializer fs inp outp = (False, fs, [InputNotFound inp]))
   \<and> (\<forall>c m. fs inp = Some (File c) \<and> parser c = Inl m \<longrightarrow>
      sort_library_by_path parser serializer fs inp outp = (False, fs, [ParseFailed inp m]))
   \<and> (\<forall>fs' out. sort_library_by_path parser serializer fs inp outp = (True, fs', out) \<longrightarrow>
        (\<exists>c root root'. fs inp = Some (File c) \<and> parser c = Inr root
           \<and> reorder_books root = Inr root' \<and> fs outp \<noteq> Some Locked
           \<and> fs' = fs(outp \<mapsto> File (serializer root'))
           \<and> out = [SortSuccess inp outp]))"
proof (intro conjI allI impI)
  assume "fs inp = None"
  then show "sort_library_by_path parser serializer fs inp outp = (False, fs, [InputNotFound inp])"
    by (simp add: sort_library_by_path_def sort_try_def open_read_def)
next
  fix c m
  assume "fs inp = Some (File c) \<and> parser c = Inl m"
  then show "sort_library_by_path parser serializer fs inp outp = (False, fs, [ParseFailed inp m])"
    by (simp add: sort_library_by_path_def sort_try_def open_read_def)
next
  fix fs' out
  assume a: "sort_library_by_path parser serializer fs inp outp = (True, fs', out)"
  then have "sort_try parser serializer fs inp outp = Inr fs'" and "out = [SortSuccess inp outp]"
    by (auto simp: sort_library_by_path_def split: sum.splits exn.splits)
  then show "\<exists>c root root'. fs inp = Some (File c) \<and> parser c = Inr root
           \<and> reorder_books root = Inr root' \<and> fs outp \<noteq> Some Locked
           \<and> fs' = fs(outp \<mapsto> File (serializer root'))
           \<and> out = [SortSuccess inp outp]"
    by (simp add: sort_try_cases)
qed

theorem sort_failure_writes_nothing_witness:
  "example_fs ''missing.xml'' = None
   \<and> sort_library_by_path example_parser example_serializer example_fs
        ''missing.xml'' ''library_sorted.xml''
      = (False, example_fs, [InputNotFound ''missing.xml''])
   \<and> broken_fs ''library.xml'' = Some (File ''<library>'')
   \<and> example_parser ''<library>'' = Inl ''syntax error''
   \<and> sort_library_by_path example_parser example_serializer broken_fs
        ''library.xml'' ''library_sorted.xml''
      = (False, broken_fs, [ParseFailed ''library.xml'' ''syntax error''])
   \<and> sort_library_by_path example_parser example_serializer example_fs
        ''library.xml'' ''library_sorted.xml''
      = (True, example_fs(''library_sorted.xml'' \<mapsto> File (example_serializer example_sorted)),
         [SortSuccess ''library.xml'' ''library_sorted.xml''])
   \<and> (\<exists>c root root'. example_fs ''library.xml'' = Some (File c) \<and> example_parser c = Inr root
         \<and> reorder_books root = Inr root' \<and> example_fs ''library_sorted.xml'' \<noteq> Some Locked)"
proof -
  have a: "example_fs ''missing.xml'' = None" by (simp add: example_fs_def)
  have b: "broken_fs ''library.xml'' = Some (File ''<library>'')
             \<and> example_parser ''<library>'' = Inl ''syntax error''"
    by (simp add: broken_fs_def example_parser_def example_input_def)
  note t1 = sort_failure_writes_nothing [of example_fs "''missing.xml''" example_parser
      example_serializer "''library_sorted.xml''"]
  note t2 = sort_failure_writes_nothing [of broken_fs "''library.xml''" example_parser
      example_serializer "''library_sorted.xml''"]
  note t3 = sort_failure_writes_nothing [of example_fs "''library.xml''" example_parser
      example_serializer "''library_sorted.xml''"]
  from t1 a have "sort_library_by_path example_parser example_serializer example_fs
        ''missing.xml'' ''library_sorted.xml''
      = (False, example_fs, [InputNotFound ''missing.xml''])" by blast
  moreover from t2 b have "sort_library_by_path example_parser example_serializer broken_fs
        ''library.xml'' ''library_sorted.xml''
      = (False, broken_fs, [ParseFailed ''library.xml'' ''syntax error''])" by blast
  moreover from t3 sort_example
  have "\<exists>c root root'. example_fs ''library.xml'' = Some (File c) \<and> example_parser c = Inr root
         \<and> reorder_books root = Inr root' \<and> example_fs ''library_sorted.xml'' \<noteq> Some Locked"
    by blast
  ultimately show ?thesis using a b sort_example by blast
qed

section \<open>Properties of the verifier\<close>








text \<open>\<open>Counter\<close> counts: one entry per element, with its number of occurrences.\<close>

lemma counter_add_keys: "fst ` set (counter_add m x) = insert x (fst ` set m)"
  by (induction m x rule: counter_add.induct) auto

lemma counter_add_distinct: "distinct (map fst m) \<Longrightarrow> distinct (map fst (counter_add m x))"
  by (induction m x rule: counter_add.induct) (auto simp: counter_add_keys)

lemma counter_add_lookup:
  "map_of (counter_add m x) k =
     (if k = x then Some (case map_of m x of None \<Rightarrow> 1 | Some n \<Rightarrow> Suc n) else map_of m k)"
  by (induction m x rule: counter_add.induct) auto

lemma foldl_counter_add:
  "distinct (map fst m) \<Longrightarrow>
   distinct (map fst (foldl counter_add m xs)) \<and>
   (\<forall>k. map_of (foldl counter_add m xs) k =
      (if k \<in> set xs
       then Some (count_list xs k + (case map_of m k of None \<Rightarrow> 0 | Some n \<Rightarrow> n))
       else map_of m k))"
proof (induction xs arbitrary: m)
  case Nil
  then show ?case by simp
next
  case (Cons x xs)
  from Cons.prems have d: "distinct (map fst (counter_add m x))" by (rule counter_add_distinct)
  from Cons.IH [OF d] show ?case
    by (auto simp: counter_add_lookup split: option.splits)
qed

lemma Counter_distinct: "distinct (map fst (Counter xs))"
  using foldl_counter_add [of "[]" xs] by (simp add: Counter_def)

lemma Counter_lookup:
  "map_of (Counter xs) k = (if k \<in> set xs then Some (count_list xs k) else None)"
  using foldl_counter_add [of "[]" xs] by (simp add: Counter_def)

lemma Counter_set: "(k, n) \<in> set (Counter xs) \<longleftrightarrow> k \<in> set xs \<and> n = count_list xs k"
proof -
  have "(k, n) \<in> set (Counter xs) \<longleftrightarrow> map_of (Counter xs) k = Some n"
    using Counter_distinct [of xs] by (rule map_of_eq_Some_iff [symmetric])
  then show ?thesis by (auto simp: Counter_lookup)
qed

lemma duplicates_set:
  "set (duplicates xs) = {(k, n). k \<in> set xs \<and> n = count_list xs k \<and> 1 < n}"
  by (auto simp: duplicates_def Counter_set)

lemma duplicates_distinct: "distinct (map fst (duplicates xs))"
  unfolding duplicates_def using Counter_distinct [of xs] by (rule distinct_map_filter)


lemma listed_missing_items: "listed_missing (map MissingItem vs) = vs"
  by (induction vs) auto

lemma listed_duplicates_append:
  "listed_duplicates (xs @ ys) = listed_duplicates xs @ listed_duplicates ys"
  by (induction xs rule: listed_duplicates.induct) auto

lemma listed_duplicates_items:
  "listed_duplicates (map (\<lambda>(item, count). DuplicateItem item count) ds) = ds"
  by (induction ds) auto

lemma listed_duplicates_no_items: "listed_duplicates (map MissingItem vs) = []"
  by (induction vs) auto

lemma duplicate_report_reading:
  "listed_missing (duplicate_report p ids u) = []"
  "\<not> list_ex is_success (duplicate_report p ids u)"
  "\<not> list_ex is_failure (duplicate_report p ids u)"
  "list_ex is_duplicate_warning (duplicate_report p ids u) \<longleftrightarrow> length u < length ids"
  "listed_duplicates (duplicate_report p ids u) =
     (if length u < length ids then duplicates ids else [])"
proof -
  have m: "listed_missing (map (\<lambda>(item, count). DuplicateItem item count) ds) = []" for ds
    by (induction ds) auto
  have e: "\<not> list_ex P (map (\<lambda>(item, count). DuplicateItem item count) ds)"
    if "\<And>v n. \<not> P (DuplicateItem v n)" for P ds
    using that by (induction ds) auto
  show "listed_missing (duplicate_report p ids u) = []"
    by (simp add: duplicate_report_def m)
  show "\<not> list_ex is_success (duplicate_report p ids u)"
    by (simp add: duplicate_report_def e)
  show "\<not> list_ex is_failure (duplicate_report p ids u)"
    by (simp add: duplicate_report_def e)
  show "list_ex is_duplicate_warning (duplicate_report p ids u) \<longleftrightarrow> length u < length ids"
    by (simp add: duplicate_report_def e)
  show "listed_duplicates (duplicate_report p ids u) =
     (if length u < length ids then duplicates ids else [])"
    by (simp add: duplicate_report_def listed_duplicates_items)
qed

lemma result_report_reading:
  "listed_missing (result_report p u missing) = missing"
  "list_ex is_success (result_report p u missing) \<longleftrightarrow> missing = []"
  "list_ex is_failure (result_report p u missing) \<longleftrightarrow> missing \<noteq> []"
  "\<not> list_ex is_duplicate_warning (result_report p u missing)"
  "listed_duplicates (result_report p u missing) = []"
proof -
  have e: "\<not> list_ex P (map MissingItem vs)" if "\<And>v. \<not> P (MissingItem v)" for P vs
    using that by (induction vs) auto
  show "listed_missing (result_report p u missing) = missing"
    by (simp add: result_report_def listed_missing_items)
  show "list_ex is_success (result_report p u missing) \<longleftrightarrow> missing = []"
    by (simp add: result_report_def e)
  show "list_ex is_failure (result_report p u missing) \<longleftrightarrow> missing \<noteq> []"
    by (simp add: result_report_def e)
  show "\<not> list_ex is_duplicate_warning (result_report p u missing)"
    by (simp add: result_report_def e)
  show "listed_duplicates (result_report p u missing) = []"
    by (simp add: result_report_def listed_duplicates_no_items)
qed


lemma verify_no_ids:
  "fs inp = Some (File ic) \<Longrightarrow> re_findall ic = [] \<Longrightarrow>
   verify_book_ids fs inp outp = (Inr (), [VerifyStart, NoBookIds])"
  by (simp add: verify_book_ids_def verify_try_def open_read_def)

lemma verify_output_unreadable:
  assumes "fs inp = Some (File ic)" and "re_findall ic \<noteq> []"
  shows "fs outp = None \<Longrightarrow>
     verify_book_ids fs inp outp =
       (Inr (), VerifyStart # duplicate_report inp (re_findall ic) (py_set (re_findall ic)) @
                [FoundUnique (length (py_set (re_findall ic))) inp, VerifyFileNotFound outp])"
    and "fs outp = Some Locked \<Longrightarrow>
     verify_book_ids fs inp outp =
       (Inr (), VerifyStart # duplicate_report inp (re_findall ic) (py_set (re_findall ic)) @
                [FoundUnique (length (py_set (re_findall ic))) inp,
                 VerifyUnexpected (OSError outp)])"
  using assms by (simp_all add: verify_book_ids_def verify_try_def open_read_def Let_def)

lemma verify_checked:
  assumes "fs inp = Some (File ic)" and "re_findall ic \<noteq> []" and "fs outp = Some (File oc)"
  shows "verify_book_ids fs inp outp =
       (Inr (), VerifyStart # duplicate_report inp (re_findall ic) (py_set (re_findall ic)) @
                [FoundUnique (length (py_set (re_findall ic))) inp] @
                result_report outp (py_set (re_findall ic))
                  (missing_ids (py_set (re_findall ic)) oc))"
  using assms by (simp add: verify_book_ids_def verify_try_def open_read_def Let_def)

lemma py_set_props:
  "set (py_set xs) = set xs" "distinct (py_set xs)" "length (py_set xs) = card (set xs)"
  by (simp_all add: py_set_def length_remdups_card_conv)

lemma missing_ids_props:
  "set (missing_ids (py_set ids) oc) = {v \<in> set ids. \<not> contains (search_pattern v) oc}"
  "distinct (missing_ids (py_set ids) oc)"
  "length (missing_ids (py_set ids) oc) = card {v \<in> set ids. \<not> contains (search_pattern v) oc}"
proof -
  show s: "set (missing_ids (py_set ids) oc) = {v \<in> set ids. \<not> contains (search_pattern v) oc}"
    by (auto simp: missing_ids_def py_set_props)
  show d: "distinct (missing_ids (py_set ids) oc)"
    by (simp add: missing_ids_def py_set_props)
  from s d show "length (missing_ids (py_set ids) oc)
      = card {v \<in> set ids. \<not> contains (search_pattern v) oc}"
    by (metis distinct_card)
qed


lemma ids_duplicate: "re_findall duplicate_input = [''x'', ''x'']"
  by code_simp




text \<open>
  Claim C8. When the input is read, the duplicate warning is printed exactly when there are
  more extracted ids than unique ones; the ids then listed are exactly those extracted more
  than once, each once and with its number of occurrences. Failure is reported exactly when
  the output is read and some extracted id is missing from it, so duplicates alone never
  cause it: with duplicates and every id present the verifier reports success.
\<close>

theorem verify_duplicate_warning:
  assumes "fs inp = Some (File ic)"
  shows "(list_ex is_duplicate_warning (snd (verify_book_ids fs inp outp))
            \<longleftrightarrow> card (set (re_findall ic)) < length (re_findall ic))
       \<and> (card (set (re_findall ic)) < length (re_findall ic) \<longrightarrow>
            set (listed_duplicates (snd (verify_book_ids fs inp outp)))
              = {(v, n). v \<in> set (re_findall ic) \<and> n = count_list (re_findall ic) v \<and> 1 < n}
            \<and> distinct (map fst (listed_duplicates (snd (verify_book_ids fs inp outp)))))
       \<and> (list_ex is_failure (snd (verify_book_ids fs inp outp))
            \<longleftrightarrow> (\<exists>oc. fs outp = Some (File oc)
                   \<and> (\<exists>v \<in> set (re_findall ic). \<not> contains (search_pattern v) oc)))
       \<and> (\<forall>oc. re_findall ic \<noteq> [] \<and> fs outp = Some (File oc)
                \<and> (\<forall>v \<in> set (re_findall ic). contains (search_pattern v) oc)
              \<longrightarrow> list_ex is_success (snd (verify_book_ids fs inp outp)))"
proof -
  let ?ids = "re_findall ic"
  let ?u = "py_set ?ids"
  let ?msgs = "snd (verify_book_ids fs inp outp)"
  let ?dup = "duplicate_report inp ?ids ?u"
  let ?found = "FoundUnique (length ?u) inp"
  have len: "length ?u < length ?ids \<longleftrightarrow> card (set ?ids) < length ?ids"
    by (simp add: py_set_props)
  have empty: "missing_ids ?u oc = [] \<longleftrightarrow> (\<forall>v \<in> set ?ids. contains (search_pattern v) oc)" for oc
  proof -
    have "missing_ids ?u oc = [] \<longleftrightarrow> set (missing_ids ?u oc) = {}" by simp
    also have "\<dots> \<longleftrightarrow> {v \<in> set ?ids. \<not> contains (search_pattern v) oc} = {}"
      by (simp only: missing_ids_props(1))
    also have "\<dots> \<longleftrightarrow> (\<forall>v \<in> set ?ids. contains (search_pattern v) oc)" by auto
    finally show ?thesis .
  qed
  show ?thesis
  proof (cases "?ids = []")
    case True
    with assms have "?msgs = [VerifyStart, NoBookIds]" by (simp add: verify_no_ids)
    with True show ?thesis by simp
  next
    case False
    show ?thesis
    proof (cases "fs outp")
      case None
      from verify_output_unreadable(1) [OF assms False None]
      have "?msgs = VerifyStart # ?dup @ [?found, VerifyFileNotFound outp]" by simp
      with None len show ?thesis
        by (simp add: duplicate_report_reading listed_duplicates_append duplicates_set
            duplicates_distinct)
    next
      case (Some en)
      show ?thesis
      proof (cases en)
        case Locked
        with Some have l: "fs outp = Some Locked" by simp
        from verify_output_unreadable(2) [OF assms False l]
        have "?msgs = VerifyStart # ?dup @ [?found, VerifyUnexpected (OSError outp)]" by simp
        with l len show ?thesis
          by (simp add: duplicate_report_reading listed_duplicates_append duplicates_set
              duplicates_distinct)
      next
        case (File oc)
        with Some have f: "fs outp = Some (File oc)" by simp
        from verify_checked [OF assms False f]
        have "?msgs = VerifyStart # ?dup @ [?found] @ result_report outp ?u (missing_ids ?u oc)"
          by simp
        with f len empty [of oc] show ?thesis
          by (simp add: duplicate_report_reading result_report_reading listed_duplicates_append
              duplicates_set duplicates_distinct)
      qed
    qed
  qed
qed

theorem verify_duplicate_warning_witness:
  "duplicate_fs ''library.xml'' = Some (File duplicate_input)
   \<and> card (set (re_findall duplicate_input)) < length (re_findall duplicate_input)
   \<and> duplicate_fs ''library_sorted.xml'' = Some (File duplicate_input)
   \<and> re_findall duplicate_input = [''x'', ''x'']
   \<and> contains (search_pattern ''x'') duplicate_input
   \<and> list_ex is_duplicate_warning
        (snd (verify_book_ids duplicate_fs ''library.xml'' ''library_sorted.xml''))
   \<and> set (listed_duplicates (snd (verify_book_ids duplicate_fs ''library.xml'' ''library_sorted.xml'')))
        = {(v, n). v \<in> set (re_findall duplicate_input)
             \<and> n = count_list (re_findall duplicate_input) v \<and> 1 < n}
   \<and> list_ex is_success (snd (verify_book_ids duplicate_fs ''library.xml'' ''library_sorted.xml''))
   \<and> \<not> list_ex is_failure (snd (verify_book_ids duplicate_fs ''library.xml'' ''library_sorted.xml''))"
proof -
  have a: "duplicate_fs ''library.xml'' = Some (File duplicate_input)"
    and b: "duplicate_fs ''library_sorted.xml'' = Some (File duplicate_input)"
    by (simp_all add: duplicate_fs_def)
  have c: "card (set (re_findall duplicate_input)) < length (re_findall duplicate_input)"
    by (simp add: ids_duplicate)
  have x: "contains (search_pattern ''x'') duplicate_input" by code_simp
  then have d: "\<forall>v \<in> set (re_findall duplicate_input). contains (search_pattern v) duplicate_input"
    by (simp add: ids_duplicate)
  have e: "re_findall duplicate_input \<noteq> []" by (simp add: ids_duplicate)
  from verify_duplicate_warning [where fs = duplicate_fs and inp = "''library.xml''"
      and outp = "''library_sorted.xml''", OF a] a b c d e x ids_duplicate
  show ?thesis by auto
qed






end
